theory Spec2Isabelle
  imports Complex_Main "HOL-Library.Log_Nat"
begin

section \<open>JavaScript numbers\<close>

text \<open>
  A JavaScript number is NaN, one of the two infinities, or a finite double. A finite value
  is carried as the rational it denotes; the doubles are the rationals that \<open>toDouble\<close>
  leaves unchanged. Every arithmetic operation computes the exact result and rounds it with
  \<open>toDouble\<close>, as IEEE 754 binary64 arithmetic does. The sign of zero is not modelled: the
  program never divides by a computed value, and comparisons do not see it.
\<close>

datatype number = NaN | PosInfinity | NegInfinity | Finite rat

text \<open>
  Rounding to the nearest double, ties to even. For a positive rational \<open>a\<close>, \<open>ilog2 a\<close> is
  the integer \<open>k\<close> with \<open>2^k \<le> a < 2^(k+1)\<close>. A double is \<open>m * 2^e\<close> with an integer
  significand \<open>m \<le> 2^53\<close> and an exponent \<open>e\<close> from -1074 (the subnormal numbers) to 971;
  a rounded magnitude of \<open>2^1024\<close> or more overflows to an infinity.
\<close>

definition ilog2 :: "rat \<Rightarrow> int" where
  "ilog2 a = (if 1 \<le> a then bitlen \<lfloor>a\<rfloor> - 1 else - bitlen (\<lceil>1 / a\<rceil> - 1))"

definition roundHalfEven :: "rat \<Rightarrow> int" where
  "roundHalfEven q =
     (let f = \<lfloor>q\<rfloor>; d = q - rat_of_int f
      in if d < 1 / 2 then f else if 1 / 2 < d then f + 1 else if even f then f else f + 1)"

definition exponentOf :: "rat \<Rightarrow> int" where
  "exponentOf a = max (ilog2 a - 52) (- 1074)"

definition significandOf :: "rat \<Rightarrow> int" where
  "significandOf a = roundHalfEven (a / 2 powi exponentOf a)"

definition toDouble :: "rat \<Rightarrow> number" where
  "toDouble x =
     (if x = 0 then Finite 0
      else let e = exponentOf \<bar>x\<bar>; m = significandOf \<bar>x\<bar>
           in if 971 < e \<or> (e = 971 \<and> m = 2 ^ 53)
              then (if 0 < x then PosInfinity else NegInfinity)
              else Finite (sgn x * (rat_of_int m * 2 powi e)))"


text \<open>\<^verbatim>\<open>Number.isFinite(x)\<close>\<close>

fun isFinite :: "number \<Rightarrow> bool" where
  "isFinite (Finite r) = True"
| "isFinite n = False"

text \<open>\<^verbatim>\<open>Number.isInteger(x)\<close>\<close>

fun isInteger :: "number \<Rightarrow> bool" where
  "isInteger (Finite r) = (rat_of_int \<lfloor>r\<rfloor> = r)"
| "isInteger n = False"

text \<open>\<^verbatim>\<open>a + b\<close>, \<^verbatim>\<open>-a\<close>, \<^verbatim>\<open>a - b\<close> on numbers.\<close>

fun js_add :: "number \<Rightarrow> number \<Rightarrow> number" where
  "js_add (Finite a) (Finite b) = toDouble (a + b)"
| "js_add NaN y = NaN"
| "js_add x NaN = NaN"
| "js_add PosInfinity NegInfinity = NaN"
| "js_add NegInfinity PosInfinity = NaN"
| "js_add PosInfinity y = PosInfinity"
| "js_add NegInfinity y = NegInfinity"
| "js_add (Finite a) y = y"

fun js_neg :: "number \<Rightarrow> number" where
  "js_neg (Finite a) = Finite (- a)"
| "js_neg NaN = NaN"
| "js_neg PosInfinity = NegInfinity"
| "js_neg NegInfinity = PosInfinity"

definition js_sub :: "number \<Rightarrow> number \<Rightarrow> number" where
  "js_sub x y = js_add x (js_neg y)"

text \<open>\<^verbatim>\<open>a < b\<close>, \<^verbatim>\<open>a <= b\<close>, \<^verbatim>\<open>a > b\<close>, \<^verbatim>\<open>a >= b\<close>, \<^verbatim>\<open>a === b\<close>: every comparison with NaN is false.\<close>

fun js_lt :: "number \<Rightarrow> number \<Rightarrow> bool" where
  "js_lt (Finite a) (Finite b) = (a < b)"
| "js_lt NaN y = False"
| "js_lt x NaN = False"
| "js_lt x NegInfinity = False"
| "js_lt PosInfinity y = False"
| "js_lt NegInfinity y = True"
| "js_lt (Finite a) PosInfinity = True"

fun js_eq :: "number \<Rightarrow> number \<Rightarrow> bool" where
  "js_eq NaN y = False"
| "js_eq x NaN = False"
| "js_eq x y = (x = y)"

definition js_le :: "number \<Rightarrow> number \<Rightarrow> bool" where
  "js_le x y = (js_lt x y \<or> js_eq x y)"

definition js_gt :: "number \<Rightarrow> number \<Rightarrow> bool" where
  "js_gt x y = js_lt y x"

definition js_ge :: "number \<Rightarrow> number \<Rightarrow> bool" where
  "js_ge x y = js_le y x"

text \<open>\<^verbatim>\<open>a / b\<close>\<close>

fun js_div :: "number \<Rightarrow> number \<Rightarrow> number" where
  "js_div (Finite a) (Finite b) =
     (if b = 0 then (if a = 0 then NaN else if 0 < a then PosInfinity else NegInfinity)
      else toDouble (a / b))"
| "js_div NaN y = NaN"
| "js_div x NaN = NaN"
| "js_div (Finite a) y = Finite 0"
| "js_div PosInfinity (Finite b) = (if 0 \<le> b then PosInfinity else NegInfinity)"
| "js_div NegInfinity (Finite b) = (if 0 \<le> b then NegInfinity else PosInfinity)"
| "js_div x y = NaN"

text \<open>\<^verbatim>\<open>Math.floor(x)\<close>: the floor of a double is a double, so nothing is rounded.\<close>

fun Math_floor :: "number \<Rightarrow> number" where
  "Math_floor (Finite a) = Finite (rat_of_int \<lfloor>a\<rfloor>)"
| "Math_floor n = n"

section \<open>Dates\<close>

text \<open>
  A JavaScript \<^verbatim>\<open>Date\<close> holds a time value: milliseconds since the epoch, at most
  8.64e15 either side of it, or NaN (an invalid date).
\<close>

datatype Date = InvalidDate | ValidDate int

definition maxTime :: int where
  "maxTime = 8640000000000000"

text \<open>\<^verbatim>\<open>isNaN(d.getTime())\<close>\<close>

fun isInvalidDate :: "Date \<Rightarrow> bool" where
  "isInvalidDate InvalidDate = True"
| "isInvalidDate (ValidDate t) = False"

text \<open>\<^verbatim>\<open>a <= b\<close> and \<^verbatim>\<open>a >= b\<close> on dates compare the time values; with NaN they are false.\<close>

fun date_le :: "Date \<Rightarrow> Date \<Rightarrow> bool" where
  "date_le (ValidDate a) (ValidDate b) = (a \<le> b)"
| "date_le a b = False"

definition date_ge :: "Date \<Rightarrow> Date \<Rightarrow> bool" where
  "date_ge a b = date_le b a"

section \<open>Errors\<close>

text \<open>
  One constructor for each \<^verbatim>\<open>throw new Error(...)\<close> of \<^verbatim>\<open>calculateRunway\<close>, in the order
  of the source, carrying the values that the message interpolates; and the \<^verbatim>\<open>RangeError\<close>
  that \<^verbatim>\<open>Date.prototype.toISOString\<close> throws on an invalid date.
\<close>

datatype Error =
    InvalidBalance number
  | BalanceTooLow number
  | BalanceTooHigh number
  | InvalidDailySpend number
  | DailySpendNegative number
  | DailySpendTooHigh number
  | InvalidStartDate Date
  | InvalidExpenseAmount string number
  | InvalidDueDay string number
  | InvalidIncomeAmount string number
  | InvalidIncomeDate string Date
  | RangeError

text \<open>
  \<^verbatim>\<open>d.toISOString()\<close>. The string of a valid date is represented by the time value it
  denotes.
\<close>

datatype IsoString = IsoString int

fun toISOString :: "Date \<Rightarrow> Error + IsoString" where
  "toISOString (ValidDate t) = Inr (IsoString t)"
| "toISOString InvalidDate = Inl RangeError"

section \<open>The date-fns functions\<close>

text \<open>
  \<^verbatim>\<open>logic.ts\<close> imports \<^verbatim>\<open>addDays\<close>, \<^verbatim>\<open>isSameDay\<close> and \<^verbatim>\<open>getDate\<close> from the date-fns
  library, which is not part of the repository and works on the calendar of the machine's
  time zone. The program is therefore modelled over any three such functions, passed as a
  record; what is proved of it in general holds in every time zone.
\<close>

record DateFns =
  getDate :: "Date \<Rightarrow> number"
  isSameDay :: "Date \<Rightarrow> Date \<Rightarrow> bool"
  addDays :: "Date \<Rightarrow> int \<Rightarrow> Date"

text \<open>
  The three functions for a machine in the UTC time zone (no daylight saving), on the
  proleptic Gregorian calendar: the concrete runs below are evaluated with them.
\<close>

definition msPerDay :: int where
  "msPerDay = 86400000"

text \<open>Number of the day holding the time value \<open>t\<close>, counted from 1970-01-01.\<close>

definition dayNumber :: "int \<Rightarrow> int" where
  "dayNumber t = t div msPerDay"

text \<open>Year, month and day of month of a day number (days since 1970-01-01).\<close>

definition civil :: "int \<Rightarrow> int \<times> int \<times> int" where
  "civil z =
     (let z' = z + 719468;
          era = z' div 146097;
          doe = z' mod 146097;
          yoe = (doe - doe div 1460 + doe div 36524 - doe div 146096) div 365;
          doy = doe - (365 * yoe + yoe div 4 - yoe div 100);
          mp = (5 * doy + 2) div 153;
          d = doy - (153 * mp + 2) div 5 + 1;
          m = (if mp < 10 then mp + 3 else mp - 9);
          y = yoe + era * 400 + (if m \<le> 2 then 1 else 0)
      in (y, m, d))"

definition isLeapYear :: "int \<Rightarrow> bool" where
  "isLeapYear y = (y mod 4 = 0 \<and> (y mod 100 \<noteq> 0 \<or> y mod 400 = 0))"

definition daysInMonth :: "int \<Rightarrow> int \<Rightarrow> int" where
  "daysInMonth y m =
     (if m = 2 then (if isLeapYear y then 29 else 28)
      else if m = 4 \<or> m = 6 \<or> m = 9 \<or> m = 11 then 30 else 31)"

text \<open>\<^verbatim>\<open>getDate(date)\<close>: the day of the month, NaN for an invalid date.\<close>

fun utcGetDate :: "Date \<Rightarrow> number" where
  "utcGetDate (ValidDate t) = Finite (rat_of_int (snd (snd (civil (dayNumber t)))))"
| "utcGetDate InvalidDate = NaN"

text \<open>\<^verbatim>\<open>isSameDay(a, b)\<close>: the two dates start their day at the same instant.\<close>

fun utcIsSameDay :: "Date \<Rightarrow> Date \<Rightarrow> bool" where
  "utcIsSameDay (ValidDate a) (ValidDate b) = (dayNumber a = dayNumber b)"
| "utcIsSameDay a b = False"

text \<open>
  \<^verbatim>\<open>addDays(date, amount)\<close>: \<^verbatim>\<open>setDate\<close> leaves an invalid date when the new time value is
  beyond the range of dates.
\<close>

fun utcAddDays :: "Date \<Rightarrow> int \<Rightarrow> Date" where
  "utcAddDays (ValidDate t) n =
     (if \<bar>t + n * msPerDay\<bar> \<le> maxTime then ValidDate (t + n * msPerDay) else InvalidDate)"
| "utcAddDays InvalidDate n = InvalidDate"

definition utc :: DateFns where
  "utc = \<lparr>getDate = utcGetDate, isSameDay = utcIsSameDay, addDays = utcAddDays\<rparr>"

section \<open>Data model (types.ts)\<close>

text \<open>
  Field names are global constants here, so the fields \<^verbatim>\<open>id\<close>, \<^verbatim>\<open>amount\<close> and \<^verbatim>\<open>date\<close>
  that two types share carry the name of their type: \<open>expenseAmount\<close>, \<open>incomeAmount\<close>,
  \<open>incomeDate\<close>. For the same reason a variable of the program named like a field is
  shortened below: \<open>bal\<close>, \<open>expenses\<close>, \<open>incomes\<close>, \<open>dailySpend\<close>; \<open>fns\<close> is the
  record of the date-fns functions.
\<close>

datatype Reliability = certain | likely | uncertain

datatype Category = housing | transport | utilities | subscriptions | other

datatype Status = good | warning | critical

record FixedExpense =
  expenseId :: string
  name :: string
  expenseAmount :: number
  dueDay :: number
  category :: Category

record IncomeEvent =
  incomeId :: string
  incomeAmount :: number
  incomeDate :: Date
  source :: string
  reliability :: Reliability
  isReceived :: bool

text \<open>An entry of \<^verbatim>\<open>projectedBalance\<close>.\<close>

record ProjectionEntry =
  date :: IsoString
  balance :: number

record RunwayResult =
  daysRemaining :: int
  safeDailySpend :: number
  brokeDate :: Date
  status :: Status
  projectedBalance :: "ProjectionEntry list"

record Params =
  currentBalance :: number
  startDate :: Date
  fixedExpenses :: "FixedExpense list"
  incomeEvents :: "IncomeEvent list"
  dailyVariableSpend :: number

section \<open>RunwayLogic (logic.ts)\<close>

text \<open>\<^verbatim>\<open>xs.reduce((sum, e) => sum + e.amount, 0)\<close> for the two kinds of record.\<close>

definition sumExpenses :: "FixedExpense list \<Rightarrow> number" where
  "sumExpenses es = foldl (\<lambda>sum e. js_add sum (expenseAmount e)) (Finite 0) es"

definition sumIncome :: "IncomeEvent list \<Rightarrow> number" where
  "sumIncome es = foldl (\<lambda>sum e. js_add sum (incomeAmount e)) (Finite 0) es"

text \<open>The validation loop over \<^verbatim>\<open>fixedExpenses\<close>: the first offending expense throws.\<close>

fun validateExpenses :: "FixedExpense list \<Rightarrow> Error option" where
  "validateExpenses [] = None"
| "validateExpenses (expense # rest) =
     (if \<not> isFinite (expenseAmount expense) \<or> js_le (expenseAmount expense) (Finite 0)
      then Some (InvalidExpenseAmount (name expense) (expenseAmount expense))
      else if \<not> isInteger (dueDay expense) \<or> js_lt (dueDay expense) (Finite 1)
              \<or> js_gt (dueDay expense) (Finite 31)
      then Some (InvalidDueDay (name expense) (dueDay expense))
      else validateExpenses rest)"

text \<open>The validation loop over \<^verbatim>\<open>incomeEvents\<close>.\<close>

fun validateIncome :: "IncomeEvent list \<Rightarrow> Error option" where
  "validateIncome [] = None"
| "validateIncome (income # rest) =
     (if \<not> isFinite (incomeAmount income) \<or> js_le (incomeAmount income) (Finite 0)
      then Some (InvalidIncomeAmount (source income) (incomeAmount income))
      else if isInvalidDate (incomeDate income)
      then Some (InvalidIncomeDate (source income) (incomeDate income))
      else validateIncome rest)"

text \<open>The block between \<^verbatim>\<open>INPUT VALIDATION\<close> and \<^verbatim>\<open>END VALIDATION\<close>.\<close>

definition validate :: "Params \<Rightarrow> Error option" where
  "validate params =
     (if \<not> isFinite (currentBalance params) then Some (InvalidBalance (currentBalance params))
      else if js_lt (currentBalance params) (Finite (- 1000000))
      then Some (BalanceTooLow (currentBalance params))
      else if js_gt (currentBalance params) (Finite 100000000)
      then Some (BalanceTooHigh (currentBalance params))
      else if \<not> isFinite (dailyVariableSpend params)
      then Some (InvalidDailySpend (dailyVariableSpend params))
      else if js_lt (dailyVariableSpend params) (Finite 0)
      then Some (DailySpendNegative (dailyVariableSpend params))
      else if js_gt (dailyVariableSpend params) (Finite 100000)
      then Some (DailySpendTooHigh (dailyVariableSpend params))
      else if isInvalidDate (startDate params) then Some (InvalidStartDate (startDate params))
      else (case validateExpenses (fixedExpenses params) of
              Some err \<Rightarrow> Some err
            | None \<Rightarrow> validateIncome (incomeEvents params)))"

text \<open>\<^verbatim>\<open>todaysIncome\<close>: the income events on the same day as \<^verbatim>\<open>currentDate\<close>, summed.\<close>

definition todaysIncome :: "DateFns \<Rightarrow> IncomeEvent list \<Rightarrow> Date \<Rightarrow> number" where
  "todaysIncome fns incomes currentDate =
     sumIncome (filter (\<lambda>e. isSameDay fns (incomeDate e) currentDate) incomes)"

text \<open>
  \<^verbatim>\<open>todaysFixedExpenses\<close> (and \<^verbatim>\<open>dailyFixed\<close> of the safe-spend helper): the expenses
  whose \<^verbatim>\<open>dueDay\<close> is strictly equal to the day of the month of the date, summed.
\<close>

definition todaysFixedExpenses :: "DateFns \<Rightarrow> FixedExpense list \<Rightarrow> Date \<Rightarrow> number" where
  "todaysFixedExpenses fns expenses currentDate =
     sumExpenses (filter (\<lambda>e. js_eq (dueDay e) (getDate fns currentDate)) expenses)"

definition maxDays :: int where
  "maxDays = 365"

text \<open>
  The \<^verbatim>\<open>while (daysResult < maxDays)\<close> loop over the variables \<^verbatim>\<open>balance\<close> (here \<open>bal\<close>),
  \<^verbatim>\<open>currentDate\<close>, \<^verbatim>\<open>daysResult\<close> and \<^verbatim>\<open>projection\<close>. It returns the three variables
  that are read after the loop, or the error that \<^verbatim>\<open>currentDate.toISOString()\<close> throws.
\<close>

function simulate ::
  "DateFns \<Rightarrow> FixedExpense list \<Rightarrow> IncomeEvent list \<Rightarrow> number \<Rightarrow>
   number \<Rightarrow> Date \<Rightarrow> int \<Rightarrow> ProjectionEntry list \<Rightarrow>
   Error + Date \<times> int \<times> ProjectionEntry list" where
  "simulate fns expenses incomes dailySpend bal currentDate daysResult projection =
     (if daysResult < maxDays then
        (let balance1 = js_add bal (todaysIncome fns incomes currentDate);
             balance2 = js_sub balance1 (todaysFixedExpenses fns expenses currentDate);
             balance3 = js_sub balance2 dailySpend
         in case toISOString currentDate of
              Inl err \<Rightarrow> Inl err
            | Inr isoString \<Rightarrow>
                (let projection' = projection @ [\<lparr>date = isoString, balance = Math_floor balance3\<rparr>]
                 in if js_lt balance3 (Finite 0) then Inr (currentDate, daysResult, projection')
                    else simulate fns expenses incomes dailySpend
                           balance3 (addDays fns currentDate 1) (daysResult + 1) projection'))
      else Inr (currentDate, daysResult, projection))"
  by pat_completeness auto
termination
  by (relation "measure (\<lambda>(f, fe, ie, dvs, b, d, n, p). nat (maxDays - n))") auto

text \<open>The \<^verbatim>\<open>for (let i = 0; i < targetDays; i++)\<close> loop of the safe-spend helper.\<close>

function sumFixedInRange ::
  "DateFns \<Rightarrow> FixedExpense list \<Rightarrow> int \<Rightarrow> int \<Rightarrow> Date \<Rightarrow> number \<Rightarrow> number" where
  "sumFixedInRange fns expenses targetDays i tempDate totalFixed =
     (if i < targetDays
      then sumFixedInRange fns expenses targetDays (i + 1) (addDays fns tempDate 1)
             (js_add totalFixed (todaysFixedExpenses fns expenses tempDate))
      else totalFixed)"
  by pat_completeness auto
termination
  by (relation "measure (\<lambda>(f, fe, td, i, d, t). nat (td - i))") auto

definition calculateSafeSpendForTarget :: "DateFns \<Rightarrow> int \<Rightarrow> Params \<Rightarrow> number" where
  "calculateSafeSpendForTarget fns targetDays params =
     (let targetDate = addDays fns (startDate params) targetDays;
          relevantIncome = sumIncome
            (filter (\<lambda>e. date_le (incomeDate e) targetDate \<and> date_ge (incomeDate e) (startDate params))
               (incomeEvents params));
          availableMoney = js_add (currentBalance params) relevantIncome;
          totalFixed =
            sumFixedInRange fns (fixedExpenses params) targetDays 0 (startDate params) (Finite 0);
          availableMoney' = js_sub availableMoney totalFixed
      in if js_le availableMoney' (Finite 0) then Finite 0
         else Math_floor (js_div availableMoney' (Finite (rat_of_int targetDays))))"

definition statusOf :: "int \<Rightarrow> Status" where
  "statusOf daysResult =
     (if daysResult < 7 then critical else if daysResult < 30 then warning else good)"

definition calculateRunway :: "DateFns \<Rightarrow> Params \<Rightarrow> Error + RunwayResult" where
  "calculateRunway fns params =
     (case validate params of
        Some err \<Rightarrow> Inl err
      | None \<Rightarrow>
          if js_lt (currentBalance params) (Finite 0)
          then Inr \<lparr>daysRemaining = 0, safeDailySpend = Finite 0, brokeDate = startDate params,
                    status = critical, projectedBalance = []\<rparr>
          else (case simulate fns (fixedExpenses params) (incomeEvents params)
                       (dailyVariableSpend params) (currentBalance params) (startDate params) 0 [] of
                  Inl err \<Rightarrow> Inl err
                | Inr (currentDate, daysResult, projection) \<Rightarrow>
                    Inr \<lparr>daysRemaining = daysResult,
                          safeDailySpend = calculateSafeSpendForTarget fns 30 params,
                          brokeDate = currentDate, status = statusOf daysResult,
                          projectedBalance = projection\<rparr>))"

text \<open>\<^verbatim>\<open>calculateRunwaySafe\<close>: the same computation with the error caught and returned.\<close>

definition calculateRunwaySafe :: "DateFns \<Rightarrow> Params \<Rightarrow> Error + RunwayResult" where
  "calculateRunwaySafe fns params = calculateRunway fns params"

section \<open>Notions used in the statements\<close>

text \<open>The value of a finite number (0 for the others, which validation excludes).\<close>

fun valOf :: "number \<Rightarrow> rat" where
  "valOf (Finite r) = r"
| "valOf n = 0"

text \<open>
  The preconditions of \<^verbatim>\<open>project\<close> as the specification lists them: the balance finite and
  within [-1,000,000, 100,000,000]; the daily spend finite and within [0, 100,000]; the
  start date valid; every obligation with a finite amount above 0 and an integer due day
  within [1, 31]; every income event with a finite amount above 0 and a valid date.
\<close>

definition validObligation :: "FixedExpense \<Rightarrow> bool" where
  "validObligation e =
     (isFinite (expenseAmount e) \<and> 0 < valOf (expenseAmount e) \<and>
      isFinite (dueDay e) \<and> valOf (dueDay e) \<in> rat_of_int ` {1..31})"

definition validIncomeEvent :: "IncomeEvent \<Rightarrow> bool" where
  "validIncomeEvent e =
     (isFinite (incomeAmount e) \<and> 0 < valOf (incomeAmount e) \<and> incomeDate e \<noteq> InvalidDate)"

definition validInput :: "Params \<Rightarrow> bool" where
  "validInput params =
     (isFinite (currentBalance params) \<and>
      - 1000000 \<le> valOf (currentBalance params) \<and> valOf (currentBalance params) \<le> 100000000 \<and>
      isFinite (dailyVariableSpend params) \<and>
      0 \<le> valOf (dailyVariableSpend params) \<and> valOf (dailyVariableSpend params) \<le> 100000 \<and>
      startDate params \<noteq> InvalidDate \<and>
      list_all validObligation (fixedExpenses params) \<and>
      list_all validIncomeEvent (incomeEvents params))"


text \<open>
  The date of the \<open>k\<close>-th simulated day: the start date advanced \<open>k\<close> times by one day, as
  the loop does. The dates of the first \<open>n\<close> simulated days are valid when none of them is
  the invalid date.
\<close>

fun dateOfDay :: "DateFns \<Rightarrow> Date \<Rightarrow> nat \<Rightarrow> Date" where
  "dateOfDay fns d 0 = d"
| "dateOfDay fns d (Suc k) = addDays fns (dateOfDay fns d k) 1"

definition datesValid :: "DateFns \<Rightarrow> Date \<Rightarrow> nat \<Rightarrow> bool" where
  "datesValid fns d n = list_all (\<lambda>k. dateOfDay fns d k \<noteq> InvalidDate) [0..<n]"

text \<open>
  The balance that the loop body computes for a day from the balance at its start: income
  added, obligations and daily spend subtracted, each operation rounded as the program's.
\<close>

definition endOfDayBalance ::
  "DateFns \<Rightarrow> FixedExpense list \<Rightarrow> IncomeEvent list \<Rightarrow> number \<Rightarrow> number \<Rightarrow> Date \<Rightarrow> number" where
  "endOfDayBalance fns expenses incomes dailySpend bal currentDate =
     js_sub (js_sub (js_add bal (todaysIncome fns incomes currentDate))
               (todaysFixedExpenses fns expenses currentDate)) dailySpend"



text \<open>
  The order of two balances that the loop preserves from day to day: the second is NaN
  (which never compares below 0), or the first is at most the second.
\<close>

definition dominated :: "number \<Rightarrow> number \<Rightarrow> bool" where
  "dominated a b = (b = NaN \<or> js_le a b)"

text \<open>The rounded magnitude of a positive rational, before the overflow test.\<close>

definition magnitude :: "rat \<Rightarrow> rat" where
  "magnitude a = rat_of_int (significandOf a) * 2 powi exponentOf a"

section \<open>The specification's month-end rule\<close>

text \<open>
  The last valid day of the month of the time value \<open>t\<close> (UTC), and the total of the
  obligations whose due day, clamped to that last day, is the day of the month of \<open>t\<close>.
\<close>

definition lastDayOfMonth :: "int \<Rightarrow> int" where
  "lastDayOfMonth t = (case civil (dayNumber t) of (y, m, d) \<Rightarrow> daysInMonth y m)"

definition clampedDueTotal :: "FixedExpense list \<Rightarrow> int \<Rightarrow> rat" where
  "clampedDueTotal expenses t =
     sum_list (map (\<lambda>e. valOf (expenseAmount e))
       (filter (\<lambda>e. Finite (min (valOf (dueDay e)) (rat_of_int (lastDayOfMonth t))) =
                    utcGetDate (ValidDate t))
          expenses))"

text \<open>
  The safe-spend rule of the specification, for a start at the time value \<open>t\<close>: the money
  available is the balance, plus the income dated from the start date to 30 days later
  (both ends included), less the obligations charged on each of the 30 days from the start
  date by the month-end rule; the safe daily spend is 0 when that is not positive, and its
  thirtieth part rounded down otherwise.
\<close>

definition incomeInWindow :: "IncomeEvent list \<Rightarrow> int \<Rightarrow> rat" where
  "incomeInWindow incomes t =
     sum_list (map (\<lambda>e. valOf (incomeAmount e))
       (filter (\<lambda>e. date_le (ValidDate t) (incomeDate e) \<and>
                    date_le (incomeDate e) (ValidDate (t + 30 * msPerDay)))
          incomes))"

definition clampedObligationsInWindow :: "FixedExpense list \<Rightarrow> int \<Rightarrow> rat" where
  "clampedObligationsInWindow expenses t =
     sum_list (map (\<lambda>i. clampedDueTotal expenses (t + i * msPerDay)) [0..29])"

definition safeSpendSpec :: "rat \<Rightarrow> int \<Rightarrow> FixedExpense list \<Rightarrow> IncomeEvent list \<Rightarrow> int" where
  "safeSpendSpec bal t expenses incomes =
     (let availableMoney = bal + incomeInWindow incomes t - clampedObligationsInWindow expenses t
      in if availableMoney \<le> 0 then 0 else \<lfloor>availableMoney / 30\<rfloor>)"

section \<open>Example inputs\<close>

text \<open>2025-02-01T00:00:00Z and 2025-02-27T00:00:00Z, days of a non-leap February.\<close>

definition feb01 :: int where
  "feb01 = 1738368000000"

definition feb27 :: int where
  "feb27 = 1740614400000"

definition rent :: FixedExpense where
  "rent = \<lparr>expenseId = ''e1'', name = ''Rent'', expenseAmount = Finite 8000, dueDay = Finite 31,
            category = housing\<rparr>"

definition gift :: "Date \<Rightarrow> IncomeEvent" where
  "gift d = \<lparr>incomeId = ''1'', incomeAmount = Finite 500, incomeDate = d, source = ''Mom'',
              reliability = certain, isReceived = False\<rparr>"

definition mkParams ::
  "number \<Rightarrow> Date \<Rightarrow> FixedExpense list \<Rightarrow> IncomeEvent list \<Rightarrow> number \<Rightarrow> Params" where
  "mkParams b d es is s =
     \<lparr>currentBalance = b, startDate = d, fixedExpenses = es, incomeEvents = is,
      dailyVariableSpend = s\<rparr>"

section \<open>Rounding to a double\<close>

text \<open>
  The exponent and the significand that \<open>toDouble\<close> computes bracket the rational, and
  rounding is monotone: a sum of larger numbers is not rounded below a sum of smaller ones.
\<close>

lemma of_int_le_pow2: "i \<le> 2 ^ n \<Longrightarrow> rat_of_int i \<le> 2 ^ n"
  using of_int_le_iff [where ?'a = rat, of i "2 ^ n"] by simp

lemma pow2_le_of_int: "2 ^ n \<le> i \<Longrightarrow> (2::rat) ^ n \<le> rat_of_int i"
  using of_int_le_iff [where ?'a = rat, of "2 ^ n" i] by simp

lemma ilog2_bounds:
  assumes "0 < a"
  shows "2 powi ilog2 a \<le> a" and "a < 2 powi (ilog2 a + 1)"
proof -
  have "2 powi ilog2 a \<le> a \<and> a < 2 powi (ilog2 a + 1)"
  proof (cases "1 \<le> a")
    case True
    let ?n = "\<lfloor>a\<rfloor>"
    from True have n: "0 < ?n" by simp
    from bitlen_bounds [OF n] have lo: "2 ^ nat (bitlen ?n - 1) \<le> ?n" and hi: "?n < 2 ^ nat (bitlen ?n)"
      by simp_all
    from n have b1: "1 \<le> bitlen ?n" by (simp add: bitlen_alt_def)
    have "rat_of_int (2 ^ nat (bitlen ?n - 1)) \<le> rat_of_int ?n" using lo by (simp only: of_int_le_iff)
    also have "\<dots> \<le> a" by simp
    finally have l: "2 powi (bitlen ?n - 1) \<le> a"
      using b1 by (simp add: power_int_def)
    from hi have "?n + 1 \<le> 2 ^ nat (bitlen ?n)" by simp
    then have "rat_of_int (?n + 1) \<le> rat_of_int (2 ^ nat (bitlen ?n))" by (simp only: of_int_le_iff)
    moreover have "a < rat_of_int (?n + 1)" by linarith
    ultimately have "a < 2 powi (bitlen ?n)"
      using b1 by (simp add: power_int_def)
    with l True show ?thesis by (simp add: ilog2_def)
  next
    case False
    let ?c = "\<lceil>1 / a\<rceil>"
    from False assms have y: "1 < 1 / a" by simp
    then have c: "0 < ?c - 1" by linarith
    from bitlen_bounds [OF c] have lo: "2 ^ nat (bitlen (?c - 1) - 1) \<le> ?c - 1"
      and hi: "?c - 1 < 2 ^ nat (bitlen (?c - 1))" by simp_all
    from c have b1: "1 \<le> bitlen (?c - 1)" by (simp add: bitlen_alt_def)
    let ?b = "bitlen (?c - 1)"
    have "rat_of_int (2 ^ nat (?b - 1)) \<le> rat_of_int (?c - 1)" using lo by (simp only: of_int_le_iff)
    also have "\<dots> < 1 / a" by linarith
    finally have "2 powi (?b - 1) < 1 / a" using b1 by (simp add: power_int_def)
    then have "a * 2 powi (?b - 1) < 1" using assms by (simp add: field_simps)
    then have "a < 1 / 2 powi (?b - 1)"
      by (subst pos_less_divide_eq) simp_all
    moreover have "- ?b + 1 = - (?b - 1)" by simp
    ultimately have u: "a < 2 powi (- ?b + 1)"
      by (simp only: power_int_minus_divide)
    from hi have "?c \<le> 2 ^ nat ?b" by simp
    then have "rat_of_int ?c \<le> 2 ^ nat ?b" by (rule of_int_le_pow2)
    moreover have "1 / a \<le> rat_of_int ?c" by simp
    ultimately have "1 / a \<le> 2 ^ nat ?b" by (rule order_trans [rotated])
    then have "1 / a \<le> 2 powi ?b" using b1 by (simp add: power_int_def)
    then have "1 \<le> a * 2 powi ?b" using assms by (simp add: field_simps)
    then have "1 / 2 powi ?b \<le> a"
      by (subst pos_divide_le_eq) simp_all
    then have "2 powi (- ?b) \<le> a"
      by (simp only: power_int_minus_divide)
    with u False show ?thesis by (simp add: ilog2_def)
  qed
  then show "2 powi ilog2 a \<le> a" and "a < 2 powi (ilog2 a + 1)" by simp_all
qed

lemma roundHalfEven_floor: "\<lfloor>q\<rfloor> \<le> roundHalfEven q" "roundHalfEven q \<le> \<lfloor>q\<rfloor> + 1"
  by (simp_all add: roundHalfEven_def Let_def)

lemma roundHalfEven_of_int [simp]: "roundHalfEven (rat_of_int n) = n"
  by (simp add: roundHalfEven_def)

lemma roundHalfEven_ge:
  assumes "rat_of_int n \<le> q"
  shows "n \<le> roundHalfEven q"
proof -
  from assms have "n \<le> \<lfloor>q\<rfloor>" by (simp add: le_floor_iff)
  with roundHalfEven_floor(1) [of q] show ?thesis by simp
qed

lemma roundHalfEven_le:
  assumes "q \<le> rat_of_int n"
  shows "roundHalfEven q \<le> n"
proof (cases "q = rat_of_int n")
  case True
  then show ?thesis by simp
next
  case False
  with assms have "q < rat_of_int n" by simp
  then have "\<lfloor>q\<rfloor> < n" by (simp add: floor_less_iff)
  with roundHalfEven_floor(2) [of q] show ?thesis by simp
qed

lemma roundHalfEven_mono:
  assumes "q \<le> r"
  shows "roundHalfEven q \<le> roundHalfEven r"
proof (cases "\<lfloor>q\<rfloor> = \<lfloor>r\<rfloor>")
  case True
  with assms have "q - rat_of_int \<lfloor>q\<rfloor> \<le> r - rat_of_int \<lfloor>r\<rfloor>" by simp
  with True show ?thesis
    by (auto simp: roundHalfEven_def Let_def)
next
  case False
  with assms have "\<lfloor>q\<rfloor> < \<lfloor>r\<rfloor>" by (simp add: floor_mono order.not_eq_order_implies_strict)
  with roundHalfEven_floor(2) [of q] roundHalfEven_floor(1) [of r] show ?thesis by simp
qed

lemma ilog2_mono:
  assumes "0 < a" "a \<le> b"
  shows "ilog2 a \<le> ilog2 b"
proof (rule ccontr)
  assume "\<not> ilog2 a \<le> ilog2 b"
  then have "ilog2 b + 1 \<le> ilog2 a" by simp
  then have "(2::rat) powi (ilog2 b + 1) \<le> 2 powi ilog2 a"
    by (intro power_int_increasing) simp_all
  moreover from assms have "0 < b" by simp
  ultimately show False
    using ilog2_bounds(2) [of b] ilog2_bounds(1) [OF assms(1)] assms(2) by linarith
qed

lemma exponentOf_mono: "0 < a \<Longrightarrow> a \<le> b \<Longrightarrow> exponentOf a \<le> exponentOf b"
  using ilog2_mono [of a b] by (simp add: exponentOf_def)

lemma scaled_less:
  assumes "0 < a"
  shows "a / 2 powi exponentOf a < 2 ^ 53"
proof -
  have le: "(2::rat) powi (ilog2 a - 52) \<le> 2 powi exponentOf a"
    by (intro power_int_increasing) (simp_all add: exponentOf_def)
  have "ilog2 a - 52 + 53 = ilog2 a + 1" by simp
  with ilog2_bounds(2) [OF assms] have "a < 2 powi (ilog2 a - 52 + 53)"
    by (simp only:)
  also have "\<dots> = 2 powi (ilog2 a - 52) * 2 powi 53"
    by (rule power_int_add) simp
  also have "\<dots> \<le> 2 powi exponentOf a * 2 powi 53"
    using le by (rule mult_right_mono) simp
  finally have "a < 2 powi exponentOf a * 2 powi 53" .
  then have "a / 2 powi exponentOf a < 2 powi 53"
    by (subst pos_divide_less_eq) (simp_all add: mult.commute)
  then show ?thesis by simp
qed

lemma scaled_ge:
  assumes "0 < a" "- 1074 < exponentOf a"
  shows "2 ^ 52 \<le> a / 2 powi exponentOf a"
proof -
  from assms(2) have e: "exponentOf a = ilog2 a - 52"
    by (simp add: exponentOf_def max_def split: if_splits)
  have "(2::rat) powi exponentOf a * 2 powi 52 = 2 powi (ilog2 a - 52 + 52)"
    unfolding e by (rule power_int_add [symmetric]) simp
  also have "\<dots> \<le> a"
    using ilog2_bounds(1) [OF assms(1)] by simp
  finally have "2 powi 52 \<le> a / 2 powi exponentOf a"
    by (subst pos_le_divide_eq) (simp_all add: mult.commute)
  then show ?thesis by simp
qed

lemma significandOf_le: "0 < a \<Longrightarrow> significandOf a \<le> 2 ^ 53"
  unfolding significandOf_def
  using roundHalfEven_le [of "a / 2 powi exponentOf a" "2 ^ 53"] scaled_less [of a] by simp

lemma significandOf_ge: "0 < a \<Longrightarrow> - 1074 < exponentOf a \<Longrightarrow> 2 ^ 52 \<le> significandOf a"
  unfolding significandOf_def
  using roundHalfEven_ge [of "2 ^ 52" "a / 2 powi exponentOf a"] scaled_ge [of a] by simp

lemma significandOf_nonneg: "0 < a \<Longrightarrow> 0 \<le> significandOf a"
  unfolding significandOf_def
  using roundHalfEven_ge [of 0 "a / 2 powi exponentOf a"] by simp

lemma magnitude_nonneg: "0 < a \<Longrightarrow> 0 \<le> magnitude a"
  by (simp add: magnitude_def significandOf_nonneg)

lemma magnitude_mono:
  assumes "0 < a" "a \<le> b"
  shows "magnitude a \<le> magnitude b"
proof (cases "exponentOf a = exponentOf b")
  case True
  from assms have "a / 2 powi exponentOf b \<le> b / 2 powi exponentOf b"
    by (simp add: divide_right_mono)
  then have "significandOf a \<le> significandOf b"
    unfolding significandOf_def True by (rule roundHalfEven_mono)
  then have "rat_of_int (significandOf a) \<le> rat_of_int (significandOf b)" by simp
  then show ?thesis
    unfolding magnitude_def True by (rule mult_right_mono) simp
next
  case False
  with exponentOf_mono [OF assms] have lt: "exponentOf a + 1 \<le> exponentOf b" by simp
  from assms have b: "0 < b" by simp
  have "- 1074 \<le> exponentOf a" by (simp add: exponentOf_def)
  with lt have "- 1074 < exponentOf b" by simp
  from significandOf_ge [OF b this] have "(2::rat) ^ 52 \<le> rat_of_int (significandOf b)"
    by (rule pow2_le_of_int)
  then have "(2::rat) powi 52 \<le> rat_of_int (significandOf b)" by simp
  then have lb: "2 powi 52 * 2 powi exponentOf b \<le> magnitude b"
    unfolding magnitude_def by (rule mult_right_mono) simp
  from significandOf_le [OF assms(1)] have "rat_of_int (significandOf a) \<le> 2 ^ 53"
    by (rule of_int_le_pow2)
  then have "rat_of_int (significandOf a) \<le> 2 powi 53" by simp
  then have "magnitude a \<le> 2 powi 53 * 2 powi exponentOf a"
    unfolding magnitude_def by (rule mult_right_mono) simp
  also have "\<dots> = 2 powi (53 + exponentOf a)"
    by (rule power_int_add [symmetric]) simp
  also have "\<dots> \<le> 2 powi (52 + exponentOf b)"
    using lt by (intro power_int_increasing) simp_all
  also have "\<dots> = 2 powi 52 * 2 powi exponentOf b"
    by (rule power_int_add) simp
  also note lb
  finally show ?thesis .
qed

lemma overflow_iff:
  assumes "0 < a"
  shows "(971 < exponentOf a \<or> (exponentOf a = 971 \<and> significandOf a = 2 ^ 53))
         \<longleftrightarrow> 2 powi 1024 \<le> magnitude a"
proof -
  have up: "magnitude a \<le> 2 powi (53 + exponentOf a)"
  proof -
    from significandOf_le [OF assms] have "rat_of_int (significandOf a) \<le> 2 ^ 53"
      by (rule of_int_le_pow2)
    then have "rat_of_int (significandOf a) \<le> 2 powi 53" by simp
    then have "magnitude a \<le> 2 powi 53 * 2 powi exponentOf a"
      unfolding magnitude_def by (rule mult_right_mono) simp
    also have "\<dots> = 2 powi (53 + exponentOf a)"
      by (rule power_int_add [symmetric]) simp
    finally show ?thesis .
  qed
  show ?thesis
  proof (cases "971 < exponentOf a")
    case True
    then have "- 1074 < exponentOf a" by simp
    from significandOf_ge [OF assms this] have "(2::rat) ^ 52 \<le> rat_of_int (significandOf a)"
      by (rule pow2_le_of_int)
    then have "(2::rat) powi 52 \<le> rat_of_int (significandOf a)" by simp
    then have "2 powi 52 * 2 powi exponentOf a \<le> magnitude a"
      unfolding magnitude_def by (rule mult_right_mono) simp
    moreover have "(2::rat) powi 52 * 2 powi exponentOf a = 2 powi (52 + exponentOf a)"
      by (rule power_int_add [symmetric]) simp
    moreover have "(2::rat) powi 1024 \<le> 2 powi (52 + exponentOf a)"
      using True by (intro power_int_increasing) simp_all
    ultimately have "2 powi 1024 \<le> magnitude a" by linarith
    with True show ?thesis by simp
  next
    case False
    show ?thesis
    proof (cases "exponentOf a = 971")
      case e: True
      have p: "(2::rat) powi 53 * 2 powi 971 = 2 powi 1024"
        using power_int_add [of "2::rat" 53 971] by simp
      show ?thesis
      proof (cases "significandOf a = 2 ^ 53")
        case True
        then have "magnitude a = 2 powi 53 * 2 powi 971"
          by (simp add: magnitude_def e)
        with p True e show ?thesis by simp
      next
        case m: False
        with significandOf_le [OF assms] have "significandOf a \<le> 2 ^ 53 - 1" by simp
        then have "rat_of_int (significandOf a) \<le> 2 powi 53 - 1"
          using of_int_le_iff [where ?'a = rat, of "significandOf a" "2 ^ 53 - 1"] by simp
        then have "magnitude a \<le> (2 powi 53 - 1) * 2 powi 971"
          unfolding magnitude_def e by (rule mult_right_mono) simp
        also have "\<dots> < 2 powi 53 * 2 powi 971"
          by (rule mult_strict_right_mono) simp_all
        finally have "magnitude a < 2 powi 1024" unfolding p .
        with m e show ?thesis by simp
      qed
    next
      case ne: False
      with False have "53 + exponentOf a \<le> 1023" by simp
      then have "(2::rat) powi (53 + exponentOf a) \<le> 2 powi 1023"
        by (intro power_int_increasing) simp_all
      moreover have "(2::rat) powi 1023 < 2 powi 1024"
        by (intro power_int_strict_increasing) simp_all
      ultimately have "magnitude a < 2 powi 1024" using up by linarith
      with False ne show ?thesis by simp
    qed
  qed
qed

lemma toDouble_pos:
  assumes "0 < x"
  shows "toDouble x = (if 2 powi 1024 \<le> magnitude x then PosInfinity else Finite (magnitude x))"
  using assms overflow_iff [OF assms]
  by (simp add: toDouble_def Let_def magnitude_def)

lemma toDouble_minus: "toDouble (- x) = js_neg (toDouble x)"
  by (simp add: toDouble_def Let_def)

lemma toDouble_zero [simp]: "toDouble 0 = Finite 0"
  by (simp add: toDouble_def)

lemma toDouble_not_NaN [simp]: "toDouble x \<noteq> NaN"
  by (simp add: toDouble_def Let_def)

lemma toDouble_mono_pos:
  assumes "0 < x" "x \<le> y"
  shows "js_le (toDouble x) (toDouble y)"
proof -
  from assms have y: "0 < y" by simp
  from magnitude_mono [OF assms] show ?thesis
    by (auto simp add: toDouble_pos [OF assms(1)] toDouble_pos [OF y] js_le_def)
qed

lemma toDouble_nonneg:
  assumes "0 \<le> x"
  shows "js_le (Finite 0) (toDouble x)"
proof (cases "x = 0")
  case True
  then show ?thesis by (simp add: js_le_def)
next
  case False
  with assms have x: "0 < x" by simp
  from magnitude_nonneg [OF x] show ?thesis
    by (auto simp add: toDouble_pos [OF x] js_le_def)
qed

lemma js_le_neg: "js_le a b \<Longrightarrow> js_le (js_neg b) (js_neg a)"
  by (cases a; cases b) (auto simp: js_le_def)

lemma js_le_trans: "js_le a b \<Longrightarrow> js_le b c \<Longrightarrow> js_le a c"
  by (cases a; cases b; cases c) (auto simp: js_le_def)

lemma toDouble_mono:
  assumes "x \<le> y"
  shows "js_le (toDouble x) (toDouble y)"
proof -
  consider "0 < x" | "y < 0" | "x \<le> 0" "0 \<le> y" using assms by linarith
  then show ?thesis
  proof cases
    case 1
    then show ?thesis using assms by (rule toDouble_mono_pos)
  next
    case 2
    with assms have "0 < - y" "- y \<le> - x" by simp_all
    then have "js_le (toDouble (- y)) (toDouble (- x))" by (rule toDouble_mono_pos)
    then have "js_le (js_neg (toDouble (- x))) (js_neg (toDouble (- y)))" by (rule js_le_neg)
    then show ?thesis unfolding toDouble_minus by (cases "toDouble x"; cases "toDouble y") simp_all
  next
    case 3
    then have "0 \<le> - x" by simp
    then have "js_le (Finite 0) (toDouble (- x))" by (rule toDouble_nonneg)
    then have "js_le (js_neg (toDouble (- x))) (js_neg (Finite 0))" by (rule js_le_neg)
    then have "js_le (toDouble x) (Finite 0)"
      unfolding toDouble_minus by (cases "toDouble x") simp_all
    moreover from 3 have "js_le (Finite 0) (toDouble y)" by (intro toDouble_nonneg)
    ultimately show ?thesis by (rule js_le_trans)
  qed
qed

section \<open>The validation block and the loop\<close>

declare simulate.simps [simp del]
declare sumFixedInRange.simps [simp del]

lemma isFinite_iff: "isFinite x \<longleftrightarrow> (\<exists>r. x = Finite r)"
  by (cases x) auto

lemma isFinite_valOf: "isFinite x \<Longrightarrow> x = Finite (valOf x)"
  by (cases x) auto

lemma validate_expenses_iff:
  "validateExpenses es = None \<longleftrightarrow> list_all validObligation es"
proof (induction es)
  case Nil
  show ?case by simp
next
  case (Cons e es)
  have "validObligation e \<longleftrightarrow>
        \<not> (\<not> isFinite (expenseAmount e) \<or> js_le (expenseAmount e) (Finite 0)) \<and>
        \<not> (\<not> isInteger (dueDay e) \<or> js_lt (dueDay e) (Finite 1) \<or> js_gt (dueDay e) (Finite 31))"
  proof (cases "expenseAmount e"; cases "dueDay e")
    fix a d assume "expenseAmount e = Finite a" "dueDay e = Finite d"
    moreover have "(d \<in> rat_of_int ` {1..31}) \<longleftrightarrow> (rat_of_int \<lfloor>d\<rfloor> = d \<and> \<not> d < 1 \<and> \<not> 31 < d)"
    proof
      assume "d \<in> rat_of_int ` {1..31}"
      then obtain i where "d = rat_of_int i" "1 \<le> i" "i \<le> 31" by auto
      then show "rat_of_int \<lfloor>d\<rfloor> = d \<and> \<not> d < 1 \<and> \<not> 31 < d" by simp
    next
      assume h: "rat_of_int \<lfloor>d\<rfloor> = d \<and> \<not> d < 1 \<and> \<not> 31 < d"
      then have "1 \<le> \<lfloor>d\<rfloor>" "\<lfloor>d\<rfloor> \<le> 31" by (simp_all add: le_floor_iff floor_le_iff) 
      with h show "d \<in> rat_of_int ` {1..31}"
        by (metis atLeastAtMost_iff imageI)
    qed
    ultimately show ?thesis
      by (auto simp: validObligation_def js_le_def js_gt_def)
  qed (auto simp: validObligation_def js_le_def js_gt_def)
  with Cons show ?case by auto
qed

lemma validate_income_iff:
  "validateIncome es = None \<longleftrightarrow> list_all validIncomeEvent es"
proof (induction es)
  case Nil
  show ?case by simp
next
  case (Cons e es)
  have "validIncomeEvent e \<longleftrightarrow>
        \<not> (\<not> isFinite (incomeAmount e) \<or> js_le (incomeAmount e) (Finite 0)) \<and>
        \<not> isInvalidDate (incomeDate e)"
    by (cases "incomeAmount e"; cases "incomeDate e") (auto simp: validIncomeEvent_def js_le_def)
  with Cons show ?case by auto
qed

lemma validate_None_iff: "validate params = None \<longleftrightarrow> validInput params"
proof -
  have b: "isFinite (currentBalance params) \<and>
      - 1000000 \<le> valOf (currentBalance params) \<and> valOf (currentBalance params) \<le> 100000000
      \<longleftrightarrow> \<not> (\<not> isFinite (currentBalance params)) \<and> \<not> js_lt (currentBalance params) (Finite (- 1000000))
          \<and> \<not> js_gt (currentBalance params) (Finite 100000000)"
    by (cases "currentBalance params") (auto simp: js_gt_def)
  have s: "isFinite (dailyVariableSpend params) \<and>
      0 \<le> valOf (dailyVariableSpend params) \<and> valOf (dailyVariableSpend params) \<le> 100000
      \<longleftrightarrow> \<not> (\<not> isFinite (dailyVariableSpend params)) \<and> \<not> js_lt (dailyVariableSpend params) (Finite 0)
          \<and> \<not> js_gt (dailyVariableSpend params) (Finite 100000)"
    by (cases "dailyVariableSpend params") (auto simp: js_gt_def)
  have d: "startDate params \<noteq> InvalidDate \<longleftrightarrow> \<not> isInvalidDate (startDate params)"
    by (cases "startDate params") auto
  have "validInput params \<longleftrightarrow>
          (\<not> (\<not> isFinite (currentBalance params)) \<and> \<not> js_lt (currentBalance params) (Finite (- 1000000))
          \<and> \<not> js_gt (currentBalance params) (Finite 100000000)) \<and>
          (\<not> (\<not> isFinite (dailyVariableSpend params)) \<and> \<not> js_lt (dailyVariableSpend params) (Finite 0)
          \<and> \<not> js_gt (dailyVariableSpend params) (Finite 100000)) \<and>
          \<not> isInvalidDate (startDate params) \<and>
          validateExpenses (fixedExpenses params) = None \<and> validateIncome (incomeEvents params) = None"
    unfolding validInput_def using b s d validate_expenses_iff validate_income_iff by blast
  moreover have "validate params = None \<longleftrightarrow>
          (\<not> (\<not> isFinite (currentBalance params)) \<and> \<not> js_lt (currentBalance params) (Finite (- 1000000))
          \<and> \<not> js_gt (currentBalance params) (Finite 100000000)) \<and>
          (\<not> (\<not> isFinite (dailyVariableSpend params)) \<and> \<not> js_lt (dailyVariableSpend params) (Finite 0)
          \<and> \<not> js_gt (dailyVariableSpend params) (Finite 100000)) \<and>
          \<not> isInvalidDate (startDate params) \<and>
          validateExpenses (fixedExpenses params) = None \<and> validateIncome (incomeEvents params) = None"
    by (simp add: validate_def split: option.splits)
  ultimately show ?thesis by blast
qed

lemma js_le_PosInfinity [simp]: "js_le x PosInfinity = (x \<noteq> NaN)"
  by (cases x) (simp_all add: js_le_def)

lemma js_le_NegInfinity [simp]: "js_le NegInfinity x = (x \<noteq> NaN)"
  by (cases x) (simp_all add: js_le_def)

lemma js_le_from_PosInfinity [simp]: "js_le PosInfinity x = (x = PosInfinity)"
  by (cases x) (simp_all add: js_le_def)

lemma js_le_to_NegInfinity [simp]: "js_le x NegInfinity = (x = NegInfinity)"
  by (cases x) (simp_all add: js_le_def)

lemma js_le_Finite [simp]: "js_le (Finite a) (Finite b) = (a \<le> b)"
  by (auto simp: js_le_def)

lemma js_le_NaN [simp]: "\<not> js_le NaN x" "\<not> js_le x NaN"
  by (cases x; simp add: js_le_def)+

lemma js_add_dominated:
  assumes "dominated a b" and "c = PosInfinity \<longrightarrow> a \<noteq> NegInfinity"
  shows "dominated (js_add a c) (js_add b c)"
proof (cases "b = NaN")
  case True
  then show ?thesis by (simp add: dominated_def)
next
  case False
  with assms(1) have le: "js_le a b" by (simp add: dominated_def)
  show ?thesis
  proof (cases c)
    case (Finite z)
    show ?thesis
    proof (cases a; cases b)
      fix x y assume "a = Finite x" "b = Finite y"
      with le Finite toDouble_mono [of "x + z" "y + z"] show ?thesis
        by (simp add: dominated_def)
    qed (use le Finite in \<open>simp_all add: dominated_def\<close>)
  next
    case NaN
    then show ?thesis by (cases b) (simp_all add: dominated_def)
  next
    case PosInfinity
    with assms(2) le show ?thesis
      by (cases a; cases b) (simp_all add: dominated_def)
  next
    case NegInfinity
    with le show ?thesis
      by (cases a; cases b) (simp_all add: dominated_def)
  qed
qed

lemma js_sub_dominated:
  assumes "dominated a b" and "c \<noteq> NegInfinity"
  shows "dominated (js_sub a c) (js_sub b c)"
  unfolding js_sub_def
  using assms by (intro js_add_dominated) (cases c; simp_all)+

lemma dominated_survives:
  assumes "dominated a b" and "\<not> js_lt a (Finite 0)"
  shows "\<not> js_lt b (Finite 0)"
  using assms by (cases a; cases b) (auto simp: dominated_def)

lemma not_lt_not_NegInfinity: "\<not> js_lt a (Finite 0) \<Longrightarrow> a \<noteq> NegInfinity"
  by (cases a) simp_all

lemma foldl_js_add_nonneg:
  assumes "\<forall>x\<in>set xs. isFinite (f x) \<and> 0 < valOf (f x)" and "js_le (Finite 0) acc"
  shows "js_le (Finite 0) (foldl (\<lambda>sum e. js_add sum (f e)) acc xs)"
  using assms
proof (induction xs arbitrary: acc)
  case Nil
  then show ?case by simp
next
  case (Cons x xs)
  from Cons.prems(1) obtain r where r: "f x = Finite r" "0 < r"
    by (cases "f x") auto
  have "js_le (Finite 0) (js_add acc (f x))"
  proof (cases acc)
    case (Finite a)
    with Cons.prems(2) r toDouble_nonneg [of "a + r"] show ?thesis by simp
  qed (use Cons.prems(2) r in simp_all)
  with Cons show ?case by simp
qed

lemma sumExpenses_nonneg:
  "list_all validObligation es \<Longrightarrow> js_le (Finite 0) (sumExpenses (filter P es))"
  unfolding sumExpenses_def
  by (rule foldl_js_add_nonneg) (auto simp: list_all_iff validObligation_def)

lemma endOfDayBalance_dominated:
  assumes "dominated a b" and "\<not> js_lt a (Finite 0)"
    and "list_all validObligation es" and "isFinite s"
  shows "dominated (endOfDayBalance fns es is s a d) (endOfDayBalance fns es is s b d)"
proof -
  have e: "todaysFixedExpenses fns es d \<noteq> NegInfinity"
    using sumExpenses_nonneg [OF assms(3), of "\<lambda>e. js_eq (dueDay e) (getDate fns d)"]
    by (auto simp: todaysFixedExpenses_def)
  from assms(4) have s: "s \<noteq> NegInfinity" by (cases s) simp_all
  from assms(2) have "a \<noteq> NegInfinity" by (rule not_lt_not_NegInfinity)
  with assms(1) have "dominated (js_add a (todaysIncome fns is d)) (js_add b (todaysIncome fns is d))"
    by (intro js_add_dominated) simp_all
  then show ?thesis
    unfolding endOfDayBalance_def
    by (intro js_sub_dominated e s)
qed

lemma simulate_done:
  "\<not> n < maxDays \<Longrightarrow> simulate fns es is s b d n proj = Inr (d, n, proj)"
  by (subst simulate.simps) simp

lemma simulate_invalid:
  "n < maxDays \<Longrightarrow> simulate fns es is s b InvalidDate n proj = Inl RangeError"
  by (subst simulate.simps) (simp add: Let_def)

lemma simulate_step:
  "n < maxDays \<Longrightarrow> simulate fns es is s b (ValidDate t) n proj =
     (if js_lt (endOfDayBalance fns es is s b (ValidDate t)) (Finite 0)
      then Inr (ValidDate t, n,
             proj @ [\<lparr>date = IsoString t,
                       balance = Math_floor (endOfDayBalance fns es is s b (ValidDate t))\<rparr>])
      else simulate fns es is s (endOfDayBalance fns es is s b (ValidDate t))
             (addDays fns (ValidDate t) 1) (n + 1)
             (proj @ [\<lparr>date = IsoString t,
                        balance = Math_floor (endOfDayBalance fns es is s b (ValidDate t))\<rparr>]))"
  by (subst simulate.simps) (simp add: Let_def endOfDayBalance_def)

lemma simulate_days:
  "simulate fns es is s b d n proj = Inr (d', n', proj') \<Longrightarrow>
   n \<le> n' \<and> (n \<le> maxDays \<longrightarrow> n' \<le> maxDays)"
proof (induction "nat (maxDays - n)" arbitrary: b d n proj)
  case 0
  then have "\<not> n < maxDays" by simp
  with 0 show ?case by (simp add: simulate_done)
next
  case (Suc k)
  then have lt: "n < maxDays" and k: "k = nat (maxDays - (n + 1))" by linarith+
  show ?case
  proof (cases d)
    case InvalidDate
    with Suc.prems lt show ?thesis by (simp add: simulate_invalid)
  next
    case (ValidDate t)
    show ?thesis
    proof (cases "js_lt (endOfDayBalance fns es is s b (ValidDate t)) (Finite 0)")
      case True
      with Suc.prems lt ValidDate show ?thesis by (simp add: simulate_step)
    next
      case False
      with Suc.prems lt ValidDate Suc.hyps(1) [OF k] show ?thesis
        by (fastforce simp add: simulate_step)
    qed
  qed
qed

lemma simulate_length:
  "simulate fns es is s b d n proj = Inr (d', n', proj') \<Longrightarrow> n \<le> maxDays \<Longrightarrow>
   int (length proj') = int (length proj) + (n' - n) + (if n' < maxDays then 1 else 0)"
proof (induction "nat (maxDays - n)" arbitrary: b d n proj)
  case 0
  then have "\<not> n < maxDays" by simp
  with 0 show ?case by (simp add: simulate_done)
next
  case (Suc k)
  then have lt: "n < maxDays" and k: "k = nat (maxDays - (n + 1))" by linarith+
  show ?case
  proof (cases d)
    case InvalidDate
    with Suc.prems lt show ?thesis by (simp add: simulate_invalid)
  next
    case (ValidDate t)
    show ?thesis
    proof (cases "js_lt (endOfDayBalance fns es is s b (ValidDate t)) (Finite 0)")
      case True
      with Suc.prems lt ValidDate show ?thesis by (auto simp add: simulate_step)
    next
      case False
      with Suc.prems lt ValidDate have "simulate fns es is s (endOfDayBalance fns es is s b (ValidDate t))
             (addDays fns (ValidDate t) 1) (n + 1)
             (proj @ [\<lparr>date = IsoString t,
                        balance = Math_floor (endOfDayBalance fns es is s b (ValidDate t))\<rparr>])
            = Inr (d', n', proj')"
        by (simp add: simulate_step)
      from Suc.hyps(1) [OF k this] lt show ?thesis by simp
    qed
  qed
qed

lemma dateOfDay_shift: "dateOfDay fns (addDays fns d 1) k = dateOfDay fns d (Suc k)"
  by (induction k) simp_all

lemma datesValid_iff: "datesValid fns d n \<longleftrightarrow> (\<forall>k<n. dateOfDay fns d k \<noteq> InvalidDate)"
  by (auto simp: datesValid_def list_all_iff)

lemma simulate_returns:
  "\<forall>j < nat (maxDays - n). dateOfDay fns d j \<noteq> InvalidDate \<Longrightarrow>
   \<exists>res. simulate fns es is s b d n proj = Inr res"
proof (induction "nat (maxDays - n)" arbitrary: b d n proj)
  case 0
  then have "\<not> n < maxDays" by simp
  then show ?case by (simp add: simulate_done)
next
  case (Suc k)
  then have lt: "n < maxDays" and k: "k = nat (maxDays - (n + 1))" by linarith+
  from Suc.prems Suc.hyps(2) have "dateOfDay fns d 0 \<noteq> InvalidDate" by (metis zero_less_Suc)
  then obtain t where d: "d = ValidDate t" by (cases d) simp_all
  have "\<forall>j < nat (maxDays - (n + 1)). dateOfDay fns (addDays fns d 1) j \<noteq> InvalidDate"
  proof (intro allI impI)
    fix j assume "j < nat (maxDays - (n + 1))"
    then have "Suc j < nat (maxDays - n)" by linarith
    with Suc.prems show "dateOfDay fns (addDays fns d 1) j \<noteq> InvalidDate"
      unfolding dateOfDay_shift by blast
  qed
  from Suc.hyps(1) [OF k this] lt show ?case
    unfolding d by (simp add: simulate_step)
qed


lemma simulate_mono:
  assumes es: "list_all validObligation es" and s: "isFinite s"
  shows "dominated a b \<Longrightarrow> \<not> js_lt a (Finite 0) \<Longrightarrow>
     simulate fns es is s b d n pb = Inr (dB, nB, projB) \<Longrightarrow>
     \<exists>dA nA projA. simulate fns es is s a d n pa = Inr (dA, nA, projA) \<and> nA \<le> nB"
proof (induction "nat (maxDays - n)" arbitrary: a b d n pa pb)
  case 0
  then have "\<not> n < maxDays" by simp
  with 0 show ?case by (simp add: simulate_done)
next
  case (Suc k)
  then have lt: "n < maxDays" and k: "k = nat (maxDays - (n + 1))" by linarith+
  show ?case
  proof (cases d)
    case InvalidDate
    with Suc.prems lt show ?thesis by (simp add: simulate_invalid)
  next
    case (ValidDate t)
    let ?a = "endOfDayBalance fns es is s a (ValidDate t)"
    let ?b = "endOfDayBalance fns es is s b (ValidDate t)"
    from Suc.prems(1,2) have dom: "dominated ?a ?b"
      by (intro endOfDayBalance_dominated es s)
    show ?thesis
    proof (cases "js_lt ?a (Finite 0)")
      case True
      from simulate_days [OF Suc.prems(3)] have "n \<le> nB" by simp
      with True lt ValidDate show ?thesis by (simp add: simulate_step)
    next
      case False
      with dom have nb: "\<not> js_lt ?b (Finite 0)" by (rule dominated_survives)
      with Suc.prems(3) lt ValidDate have "simulate fns es is s ?b (addDays fns (ValidDate t) 1) (n + 1)
             (pb @ [\<lparr>date = IsoString t, balance = Math_floor ?b\<rparr>]) = Inr (dB, nB, projB)"
        by (simp add: simulate_step)
      from Suc.hyps(1) [OF k dom False this] False lt ValidDate show ?thesis
        by (simp add: simulate_step)
    qed
  qed
qed

lemma calculateRunway_valid:
  assumes "validInput params"
  shows "calculateRunway fns params =
     (if valOf (currentBalance params) < 0
      then Inr \<lparr>daysRemaining = 0, safeDailySpend = Finite 0, brokeDate = startDate params,
                status = critical, projectedBalance = []\<rparr>
      else (case simulate fns (fixedExpenses params) (incomeEvents params)
                   (dailyVariableSpend params) (currentBalance params) (startDate params) 0 [] of
              Inl err \<Rightarrow> Inl err
            | Inr (currentDate, daysResult, projection) \<Rightarrow>
                Inr \<lparr>daysRemaining = daysResult,
                      safeDailySpend = calculateSafeSpendForTarget fns 30 params,
                      brokeDate = currentDate, status = statusOf daysResult,
                      projectedBalance = projection\<rparr>))"
proof -
  from assms obtain b where "currentBalance params = Finite b"
    by (auto simp: validInput_def isFinite_iff)
  moreover from assms have "validate params = None"
    by (simp add: validate_None_iff)
  ultimately show ?thesis
    by (simp add: calculateRunway_def)
qed

lemma calculateRunway_simulated:
  assumes "validInput p" and "\<not> valOf (currentBalance p) < 0"
    and "simulate fns (fixedExpenses p) (incomeEvents p) (dailyVariableSpend p)
           (currentBalance p) (startDate p) 0 [] = Inr (d', n', proj')"
  shows "calculateRunway fns p =
     Inr \<lparr>daysRemaining = n', safeDailySpend = calculateSafeSpendForTarget fns 30 p,
          brokeDate = d', status = statusOf n', projectedBalance = proj'\<rparr>"
  using assms by (simp add: calculateRunway_valid)

lemma calculateRunway_Inr_cases:
  assumes "validInput p" and "calculateRunway fns p = Inr r"
  shows "(valOf (currentBalance p) < 0 \<and>
          r = \<lparr>daysRemaining = 0, safeDailySpend = Finite 0, brokeDate = startDate p,
                status = critical, projectedBalance = []\<rparr>) \<or>
         (\<not> valOf (currentBalance p) < 0 \<and>
          (\<exists>d' proj'. simulate fns (fixedExpenses p) (incomeEvents p) (dailyVariableSpend p)
               (currentBalance p) (startDate p) 0 [] = Inr (d', daysRemaining r, proj') \<and>
            brokeDate r = d' \<and> projectedBalance r = proj' \<and>
            status r = statusOf (daysRemaining r) \<and>
            safeDailySpend r = calculateSafeSpendForTarget fns 30 p))"
  using assms(2) unfolding calculateRunway_valid [OF assms(1)]
  by (auto split: if_splits sum.splits prod.splits)






lemma calculateRunway_returns:
  assumes v: "validInput params" and d: "datesValid fns (startDate params) 365"
  shows "\<exists>r. calculateRunway fns params = Inr r"
proof -
  from d have "\<forall>j < nat (maxDays - 0). dateOfDay fns (startDate params) j \<noteq> InvalidDate"
    by (simp add: datesValid_iff maxDays_def)
  from simulate_returns [OF this]
  obtain res where "simulate fns (fixedExpenses params) (incomeEvents params)
      (dailyVariableSpend params) (currentBalance params) (startDate params) 0 [] = Inr res"
    by blast
  then show ?thesis
    by (simp add: calculateRunway_valid [OF v] split: prod.splits)
qed

lemma dateOfDay_utc:
  "0 \<le> t \<Longrightarrow> t + int k * msPerDay \<le> maxTime \<Longrightarrow>
   dateOfDay utc (ValidDate t) k = ValidDate (t + int k * msPerDay)"
proof (induction k)
  case 0
  show ?case by simp
next
  case (Suc k)
  then have "t + int k * msPerDay \<le> maxTime" by (simp add: msPerDay_def algebra_simps)
  with Suc have "dateOfDay utc (ValidDate t) k = ValidDate (t + int k * msPerDay)" by simp
  moreover from Suc.prems have "\<bar>t + int k * msPerDay + msPerDay\<bar> \<le> maxTime"
    by (simp add: msPerDay_def algebra_simps)
  ultimately show ?case
    by (simp add: utc_def algebra_simps)
qed

lemma datesValid_utc:
  assumes "0 \<le> t" and "t + int n * msPerDay \<le> maxTime"
  shows "datesValid utc (ValidDate t) n"
  unfolding datesValid_iff
proof (intro allI impI)
  fix k assume "k < n"
  then have "int k * msPerDay \<le> int n * msPerDay" by (simp add: msPerDay_def)
  with assms have "t + int k * msPerDay \<le> maxTime" by simp
  with assms(1) show "dateOfDay utc (ValidDate t) k \<noteq> InvalidDate"
    by (simp add: dateOfDay_utc)
qed

lemma datesValid_feb27: "datesValid utc (ValidDate feb27) 365"
  by (rule datesValid_utc) (simp_all add: feb27_def msPerDay_def maxTime_def)

lemma validInput_example:
  "validInput (mkParams (Finite 1000) (ValidDate feb27) [rent] [gift (ValidDate feb27)] (Finite 100))"
  by (simp add: validInput_def mkParams_def validObligation_def validIncomeEvent_def rent_def gift_def)

lemma monotone_runs:
  assumes v: "validInput params" and e: "0 \<le> extra"
    and v': "validInput (params\<lparr>currentBalance := Finite (valOf (currentBalance params) + extra)\<rparr>)"
    and rB: "calculateRunway fns (params\<lparr>currentBalance := Finite (valOf (currentBalance params) + extra)\<rparr>) = Inr rB"
  shows "\<exists>rA. calculateRunway fns params = Inr rA \<and> daysRemaining rA \<le> daysRemaining rB"
proof -
  let ?a = "valOf (currentBalance params)"
  let ?p' = "params\<lparr>currentBalance := Finite (?a + extra)\<rparr>"
  from v have a: "currentBalance params = Finite ?a"
    by (simp add: validInput_def isFinite_valOf)
  from v have es: "list_all validObligation (fixedExpenses params)"
    and s: "isFinite (dailyVariableSpend params)"
    by (simp_all add: validInput_def)
  from calculateRunway_Inr_cases [OF v' rB]
  consider (neg) "?a + extra < 0" "daysRemaining rB = 0"
    | (sim) dB projB where "\<not> ?a + extra < 0"
        "simulate fns (fixedExpenses params) (incomeEvents params) (dailyVariableSpend params)
           (Finite (?a + extra)) (startDate params) 0 [] = Inr (dB, daysRemaining rB, projB)"
    by auto
  then show ?thesis
  proof cases
    case neg
    with e have "?a < 0" by simp
    with neg show ?thesis by (simp add: calculateRunway_valid [OF v])
  next
    case sim
    show ?thesis
    proof (cases "?a < 0")
      case True
      from simulate_days [OF sim(2)] have "0 \<le> daysRemaining rB" by simp
      with True show ?thesis by (simp add: calculateRunway_valid [OF v])
    next
      case False
      from e have "dominated (Finite ?a) (Finite (?a + extra))" by (simp add: dominated_def)
      moreover from False have "\<not> js_lt (Finite ?a) (Finite 0)" by simp
      ultimately obtain dA nA projA where
        "simulate fns (fixedExpenses params) (incomeEvents params) (dailyVariableSpend params)
           (Finite ?a) (startDate params) 0 [] = Inr (dA, nA, projA)" "nA \<le> daysRemaining rB"
        using simulate_mono [OF es s _ _ sim(2), of "Finite ?a" "[]"] by blast
      with False a calculateRunway_simulated [OF v, of fns dA nA projA] show ?thesis
        by simp
    qed
  qed
qed







lemma projection_length:
  assumes v: "validInput params" and nn: "0 \<le> valOf (currentBalance params)"
    and r: "calculateRunway fns params = Inr r"
  shows "int (length (projectedBalance r)) = daysRemaining r + (if daysRemaining r < 365 then 1 else 0)"
proof -
  from calculateRunway_Inr_cases [OF v r] nn obtain d' proj' where
    sim: "simulate fns (fixedExpenses params) (incomeEvents params) (dailyVariableSpend params)
       (currentBalance params) (startDate params) 0 [] = Inr (d', daysRemaining r, proj')"
    and p: "projectedBalance r = proj'"
    by auto
  from simulate_length [OF sim] p show ?thesis
    by (simp add: maxDays_def)
qed

section \<open>Claims\<close>

text \<open>
  C1 (month-end clamping): the claim is that an obligation due on the 31st is charged on the
  last day of a shorter month. The loop compares \<open>dueDay\<close> with the day of the month as it
  is: on 2025-02-28, the last day of its month, the clamped rule charges the rent of 8000
  and the program charges nothing, so that a run started on 2025-02-27 with a balance of 300
  and a daily spend of 100 survives that day with a balance of 100.
\<close>

theorem C1_due_day_not_clamped:
  "civil (dayNumber (feb27 + msPerDay)) = (2025, 2, 28) \<and>
   lastDayOfMonth (feb27 + msPerDay) = 28 \<and>
   clampedDueTotal [rent] (feb27 + msPerDay) = 8000 \<and>
   todaysFixedExpenses utc [rent] (ValidDate (feb27 + msPerDay)) = Finite 0 \<and>
   (case calculateRunway utc (mkParams (Finite 300) (ValidDate feb27) [rent] [] (Finite 100)) of
      Inr r \<Rightarrow> daysRemaining r = 3 \<and>
        map date (projectedBalance r) =
          [IsoString feb27, IsoString (feb27 + msPerDay), IsoString (feb27 + 2 * msPerDay),
           IsoString (feb27 + 3 * msPerDay)] \<and>
        map balance (projectedBalance r) = [Finite 200, Finite 100, Finite 0, Finite (- 100)]
    | Inl err \<Rightarrow> False)"
  by code_simp

text \<open>
  C2 (result length): the claim is that \<open>projectedBalance\<close> has exactly \<open>daysRemaining\<close>
  entries. The loop records the day on which the balance goes negative before it breaks, so
  a run that ends before the horizon has one entry more: with a balance of 1000 and a daily
  spend of 100 it returns \<open>daysRemaining = 10\<close> and 11 entries.
\<close>

theorem C2_projection_longer_than_days:
  "(case calculateRunway utc (mkParams (Finite 1000) (ValidDate feb27) [] [] (Finite 100)) of
      Inr r \<Rightarrow> daysRemaining r = 10 \<and> length (projectedBalance r) = 11
    | Inl err \<Rightarrow> False)"
  by code_simp

text \<open>
  C3 (monotonicity in the starting balance): the claim is that, for the same start date,
  obligations, income and daily spend, a starting balance raised by \<open>extra \<ge> 0\<close> within the
  validated band returns a \<open>daysRemaining\<close> at least as large. The call with the larger
  balance need not return one: from the last date of the range of dates, with a daily spend
  of 100, a balance of 50 returns \<open>daysRemaining = 0\<close>, and a balance of 150 survives day 0
  and throws on the next date, which is invalid (the second closed statement below). What holds on
  valid inputs, in every time zone and with every sum rounded to a double: whenever the call
  with the larger balance returns a result, the call with the smaller balance returns one
  with a \<open>daysRemaining\<close> that is not larger; and both calls return when the dates of the
  365 days from the start date are valid.
\<close>

theorem C3_monotone_in_balance:
  "(validInput params \<and> 0 \<le> extra \<and>
    validInput (params\<lparr>currentBalance := Finite (valOf (currentBalance params) + extra)\<rparr>) \<and>
    calculateRunway fns (params\<lparr>currentBalance := Finite (valOf (currentBalance params) + extra)\<rparr>) = Inr rB
    \<longrightarrow> (\<exists>rA. calculateRunway fns params = Inr rA \<and> daysRemaining rA \<le> daysRemaining rB)) \<and>
   (validInput params \<and> 0 \<le> extra \<and>
    validInput (params\<lparr>currentBalance := Finite (valOf (currentBalance params) + extra)\<rparr>) \<and>
    datesValid fns (startDate params) 365
    \<longrightarrow> (\<exists>rA rB'. calculateRunway fns params = Inr rA \<and>
          calculateRunway fns (params\<lparr>currentBalance := Finite (valOf (currentBalance params) + extra)\<rparr>) = Inr rB' \<and>
          daysRemaining rA \<le> daysRemaining rB'))"
proof -
  let ?p' = "params\<lparr>currentBalance := Finite (valOf (currentBalance params) + extra)\<rparr>"
  have 1: "\<exists>rA. calculateRunway fns params = Inr rA \<and> daysRemaining rA \<le> daysRemaining rB"
    if "validInput params \<and> 0 \<le> extra \<and> validInput ?p' \<and> calculateRunway fns ?p' = Inr rB"
    using that monotone_runs [of params extra fns rB] by blast
  have 2: "\<exists>rA rB'. calculateRunway fns params = Inr rA \<and> calculateRunway fns ?p' = Inr rB' \<and>
          daysRemaining rA \<le> daysRemaining rB'"
    if h: "validInput params \<and> 0 \<le> extra \<and> validInput ?p' \<and> datesValid fns (startDate params) 365"
  proof -
    from h have "datesValid fns (startDate ?p') 365" by simp
    with h calculateRunway_returns [of ?p' fns] obtain rB' where "calculateRunway fns ?p' = Inr rB'"
      by blast
    with h monotone_runs [of params extra fns rB'] show ?thesis by blast
  qed
  from 1 2 show ?thesis by blast
qed

theorem C3_monotone_in_balance_witness:
  "validInput (mkParams (Finite 1000) (ValidDate feb27) [rent] [gift (ValidDate feb27)] (Finite 100)) \<and>
   (0::rat) \<le> 500 \<and>
   validInput ((mkParams (Finite 1000) (ValidDate feb27) [rent] [gift (ValidDate feb27)] (Finite 100))
      \<lparr>currentBalance := Finite (valOf (currentBalance (mkParams (Finite 1000) (ValidDate feb27) [rent] [gift (ValidDate feb27)] (Finite 100))) + 500)\<rparr>) \<and>
   datesValid utc (ValidDate feb27) 365 \<and>
   (\<exists>rA rB. calculateRunway utc (mkParams (Finite 1000) (ValidDate feb27) [rent] [gift (ValidDate feb27)] (Finite 100)) = Inr rA \<and>
      calculateRunway utc ((mkParams (Finite 1000) (ValidDate feb27) [rent] [gift (ValidDate feb27)] (Finite 100))
        \<lparr>currentBalance := Finite (valOf (currentBalance (mkParams (Finite 1000) (ValidDate feb27) [rent] [gift (ValidDate feb27)] (Finite 100))) + 500)\<rparr>) = Inr rB \<and>
      daysRemaining rA \<le> daysRemaining rB)"
proof -
  let ?p = "mkParams (Finite 1000) (ValidDate feb27) [rent] [gift (ValidDate feb27)] (Finite 100)"
  have e: "(0::rat) \<le> 500" by simp
  have v': "validInput (?p\<lparr>currentBalance := Finite (valOf (currentBalance ?p) + 500)\<rparr>)"
    by (simp add: validInput_def mkParams_def validObligation_def validIncomeEvent_def rent_def gift_def)
  have d: "datesValid utc (startDate ?p) 365"
    using datesValid_feb27 by (simp add: mkParams_def)
  from C3_monotone_in_balance [of ?p 500 utc] validInput_example e v' d datesValid_feb27
  show ?thesis by blast
qed

theorem C3_larger_balance_throws:
  "validInput (mkParams (Finite 50) (ValidDate maxTime) [] [] (Finite 100)) \<and>
   validInput (mkParams (Finite 150) (ValidDate maxTime) [] [] (Finite 100)) \<and>
   (case calculateRunway utc (mkParams (Finite 50) (ValidDate maxTime) [] [] (Finite 100)) of
      Inr r \<Rightarrow> daysRemaining r = 0
    | Inl err \<Rightarrow> False) \<and>
   calculateRunway utc (mkParams (Finite 150) (ValidDate maxTime) [] [] (Finite 100)) = Inl RangeError"
proof -
  have "validInput (mkParams (Finite 50) (ValidDate maxTime) [] [] (Finite 100))"
    and "validInput (mkParams (Finite 150) (ValidDate maxTime) [] [] (Finite 100))"
    by (simp_all add: validInput_def mkParams_def)
  moreover have "(case calculateRunway utc (mkParams (Finite 50) (ValidDate maxTime) [] [] (Finite 100)) of
      Inr r \<Rightarrow> daysRemaining r = 0 | Inl err \<Rightarrow> False)"
    by code_simp
  moreover have "calculateRunway utc (mkParams (Finite 150) (ValidDate maxTime) [] [] (Finite 100)) = Inl RangeError"
    by code_simp
  ultimately show ?thesis by simp
qed



text \<open>
  C5 (negative-start short-circuit): on every input that passes validation with a negative
  balance, \<open>calculateRunway\<close> returns \<open>daysRemaining = 0\<close>, \<open>safeDailySpend = 0\<close>,
  \<open>brokeDate = startDate\<close>, \<open>status = critical\<close> and an empty \<open>projectedBalance\<close>: no day is
  simulated.
\<close>

theorem C5_negative_start:
  "validInput params \<Longrightarrow> valOf (currentBalance params) < 0 \<Longrightarrow>
   calculateRunway fns params =
     Inr \<lparr>daysRemaining = 0, safeDailySpend = Finite 0, brokeDate = startDate params,
          status = critical, projectedBalance = []\<rparr>"
  by (simp add: calculateRunway_valid)

theorem C5_negative_start_witness:
  "validInput (mkParams (Finite (- 500)) (ValidDate feb27) [rent] [gift (ValidDate feb27)] (Finite 100)) \<and>
   valOf (currentBalance (mkParams (Finite (- 500)) (ValidDate feb27) [rent] [gift (ValidDate feb27)] (Finite 100))) < 0 \<and>
   calculateRunway utc (mkParams (Finite (- 500)) (ValidDate feb27) [rent] [gift (ValidDate feb27)] (Finite 100)) =
     Inr \<lparr>daysRemaining = 0, safeDailySpend = Finite 0, brokeDate = ValidDate feb27,
          status = critical, projectedBalance = []\<rparr>"
proof -
  have v: "validInput (mkParams (Finite (- 500)) (ValidDate feb27) [rent] [gift (ValidDate feb27)] (Finite 100))"
    by (simp add: validInput_def mkParams_def validObligation_def validIncomeEvent_def rent_def gift_def)
  have n: "valOf (currentBalance (mkParams (Finite (- 500)) (ValidDate feb27) [rent] [gift (ValidDate feb27)] (Finite 100))) < 0"
    by (simp add: mkParams_def)
  from C5_negative_start [OF v n, of utc] v n show ?thesis
    by (simp add: mkParams_def)
qed






text \<open>
  C8 (non-negativity and bound): the claim is that on every input passing validation
  \<open>calculateRunway\<close> returns a \<open>daysRemaining\<close> from 0 to 365, with the status \<open>critical\<close>
  below 7, \<open>warning\<close> from 7 to 29 and \<open>good\<close> from 30. A valid input need not return a
  result: with a balance of 1000 and a daily spend of 0, from the day before the last date
  of the range, the third simulated date is invalid and \<^verbatim>\<open>toISOString\<close> throws (the
  closed statement after the example). What holds: every result returned on a valid input has
  \<open>0 \<le> daysRemaining \<le> 365\<close> and the status of its \<open>daysRemaining\<close>; and a valid input returns
  a result when the dates of the 365 days from the start date are valid.
\<close>

theorem C8_days_bound_and_status:
  "(validInput params \<and> calculateRunway fns params = Inr r \<longrightarrow>
      0 \<le> daysRemaining r \<and> daysRemaining r \<le> 365 \<and>
      status r = (if daysRemaining r < 7 then critical
                  else if daysRemaining r < 30 then warning else good)) \<and>
   (validInput params \<and> datesValid fns (startDate params) 365 \<longrightarrow>
      (\<exists>r. calculateRunway fns params = Inr r))"
proof -
  have bounds: "0 \<le> daysRemaining r \<and> daysRemaining r \<le> 365 \<and>
      status r = (if daysRemaining r < 7 then critical
                  else if daysRemaining r < 30 then warning else good)"
    if a: "validInput params \<and> calculateRunway fns params = Inr r"
  proof -
    from calculateRunway_Inr_cases [of params fns r] a
    consider "r = \<lparr>daysRemaining = 0, safeDailySpend = Finite 0, brokeDate = startDate params,
                  status = critical, projectedBalance = []\<rparr>"
      | d' proj' where "simulate fns (fixedExpenses params) (incomeEvents params)
           (dailyVariableSpend params) (currentBalance params) (startDate params) 0 [] =
           Inr (d', daysRemaining r, proj')" "status r = statusOf (daysRemaining r)"
      by blast
    then show ?thesis
    proof cases
      case 1
      then show ?thesis by simp
    next
      case 2
      from simulate_days [OF 2(1)] 2(2) show ?thesis
        by (simp add: maxDays_def statusOf_def)
    qed
  qed
  have "\<exists>r. calculateRunway fns params = Inr r"
    if "validInput params \<and> datesValid fns (startDate params) 365"
    using that by (simp add: calculateRunway_returns)
  with bounds show ?thesis by blast
qed

theorem C8_days_bound_and_status_witness:
  "validInput (mkParams (Finite 1000) (ValidDate feb27) [rent] [gift (ValidDate feb27)] (Finite 100)) \<and>
   datesValid utc (ValidDate feb27) 365 \<and>
   (\<exists>r. calculateRunway utc (mkParams (Finite 1000) (ValidDate feb27) [rent] [gift (ValidDate feb27)] (Finite 100)) = Inr r \<and>
        0 \<le> daysRemaining r \<and> daysRemaining r \<le> 365 \<and>
        status r = (if daysRemaining r < 7 then critical
                    else if daysRemaining r < 30 then warning else good))"
proof -
  let ?p = "mkParams (Finite 1000) (ValidDate feb27) [rent] [gift (ValidDate feb27)] (Finite 100)"
  have d: "datesValid utc (startDate ?p) 365"
    using datesValid_feb27 by (simp add: mkParams_def)
  from C8_days_bound_and_status [of ?p utc] validInput_example d
  obtain r where r: "calculateRunway utc ?p = Inr r" by blast
  from C8_days_bound_and_status [of ?p utc r] validInput_example r datesValid_feb27
  show ?thesis by blast
qed

theorem C8_no_result_on_valid_input:
  "validInput (mkParams (Finite 1000) (ValidDate (maxTime - msPerDay)) [] [] (Finite 0)) \<and>
   calculateRunway utc (mkParams (Finite 1000) (ValidDate (maxTime - msPerDay)) [] [] (Finite 0)) =
     Inl RangeError"
proof -
  have "validInput (mkParams (Finite 1000) (ValidDate (maxTime - msPerDay)) [] [] (Finite 0))"
    by (simp add: validInput_def mkParams_def)
  moreover have "calculateRunway utc (mkParams (Finite 1000) (ValidDate (maxTime - msPerDay)) [] [] (Finite 0)) =
     Inl RangeError"
    by code_simp
  ultimately show ?thesis by simp
qed

text \<open>
  C9 (safe-spend formula): the claim is that \<open>safeDailySpend\<close> is the thirtieth part, rounded
  down, of the balance plus the income dated within 30 days of the start date less the
  obligations falling due over the 30 days from the start date, and 0 when that is not
  positive. By the specification an obligation falls due on its due day clamped to the last
  day of the month; the helper compares \<open>dueDay\<close> with the day of the month as it is, as the
  simulation loop does. From 2025-02-01, with a balance of 9000 and a rent of 8000 due on
  the 31st, the 30 days run to 2025-03-02 and hold 2025-02-28, on which the clamped rule
  charges the rent: the formula gives \<open>floor (1000 / 30) = 33\<close>, the program charges nothing
  and returns \<open>floor (9000 / 30) = 300\<close>.
\<close>

theorem C9_safe_spend_not_clamped:
  "validInput (mkParams (Finite 9000) (ValidDate feb01) [rent] [] (Finite 3000)) \<and>
   clampedDueTotal [rent] (feb01 + 27 * msPerDay) = 8000 \<and>
   safeSpendSpec 9000 feb01 [rent] [] = 33 \<and>
   (case calculateRunway utc (mkParams (Finite 9000) (ValidDate feb01) [rent] [] (Finite 3000)) of
      Inr r \<Rightarrow> safeDailySpend r = Finite 300
    | Inl err \<Rightarrow> False)"
  by code_simp

text \<open>
  C10 (income-date granularity): the simulation credits an income event dated on the same
  calendar day as the simulated day, the safe-spend helper counts an event only if its
  time value lies from the start date's to 30 days later. An income event of 500 at 08:00
  of the start day, for a start date at 12:00, is credited by the simulation on day 0 and
  left out of \<open>safeDailySpend\<close>, which is 0; dated at the start date itself it is counted,
  and \<open>safeDailySpend\<close> is 16.
\<close>

theorem C10_income_granularity_differs:
  "isSameDay utc (ValidDate (feb27 + 28800000)) (ValidDate (feb27 + 43200000)) \<and>
   \<not> date_ge (ValidDate (feb27 + 28800000)) (ValidDate (feb27 + 43200000)) \<and>
   (case calculateRunway utc (mkParams (Finite 0) (ValidDate (feb27 + 43200000)) []
           [gift (ValidDate (feb27 + 28800000))] (Finite 200)) of
      Inr r \<Rightarrow> map balance (projectedBalance r) = [Finite 300, Finite 100, Finite (- 100)] \<and>
        daysRemaining r = 2 \<and> safeDailySpend r = Finite 0
    | Inl err \<Rightarrow> False) \<and>
   (case calculateRunway utc (mkParams (Finite 0) (ValidDate (feb27 + 43200000)) []
           [gift (ValidDate (feb27 + 43200000))] (Finite 200)) of
      Inr r \<Rightarrow> map balance (projectedBalance r) = [Finite 300, Finite 100, Finite (- 100)] \<and>
        daysRemaining r = 2 \<and> safeDailySpend r = Finite 16
    | Inl err \<Rightarrow> False)"
  by code_simp

end
